theory Spec2Isabelle
  imports Main "HOL-Library.AList"
begin

section \<open>Data model (schemas.py, models.py)\<close>

text \<open>
  \<^verbatim>\<open>PostInput\<close> (schemas.py) has the fields \<^verbatim>\<open>author: str\<close>, \<^verbatim>\<open>date: datetime\<close>,
  \<^verbatim>\<open>content: str\<close>; \<^verbatim>\<open>PostModel\<close> (models.py) has the same three fields and \<^verbatim>\<open>id: str\<close>.
  The two Python classes are unrelated; here \<open>PostModel\<close> is written as the record
  extension of \<open>PostInput\<close> by the identifier, so that the three shared field names can be
  kept. A \<open>PostModel\<close> is still not a \<open>PostInput\<close>: the two record types differ.
  The field \<^verbatim>\<open>id\<close> is called \<open>id'\<close> (\<open>id\<close> is the identity function of HOL).
  The store never inspects a \<^verbatim>\<open>datetime\<close>, so the type of dates is the parameter \<open>'d\<close>.
\<close>

record 'd PostInput =
  author :: string
  date :: 'd
  content :: string

record 'd PostModel = "'d PostInput" +
  id' :: string

section \<open>The record store (storage.py)\<close>

text \<open>
  \<^verbatim>\<open>self._posts\<close> is a Python dict: its entries are kept in insertion order, assigning to
  a key that is present replaces the value where it stands, assigning to a new key appends
  the entry, and \<^verbatim>\<open>pop\<close> removes it. That is an association list with
  \<^const>\<open>AList.update\<close> and \<^const>\<open>AList.delete\<close>; \<^verbatim>\<open>dict.get\<close> is \<^const>\<open>map_of\<close> and
  \<^verbatim>\<open>dict.values\<close> the list of second components.
\<close>

record 'd PostStorage =
  posts :: "(string \<times> 'd PostModel) list"

text \<open>\<^verbatim>\<open>storage = PostStorage()\<close>: the constructor sets \<^verbatim>\<open>self._posts = {}\<close>.\<close>

definition storage :: "'d PostStorage" where
  "storage = \<lparr>posts = []\<rparr>"

definition list_posts :: "'d PostStorage \<Rightarrow> 'd PostModel list" where
  "list_posts st = map snd (posts st)"

definition get_post :: "string \<Rightarrow> 'd PostStorage \<Rightarrow> 'd PostModel option" where
  "get_post post_id st = map_of (posts st) post_id"

text \<open>
  \<^verbatim>\<open>new_id = str(uuid4())\<close>: the value that call returns is the argument \<open>new_id\<close>.
  Nothing in \<^verbatim>\<open>create_post\<close> looks whether the identifier is already a key.
\<close>

definition create_post ::
  "string \<Rightarrow> string \<Rightarrow> 'd \<Rightarrow> string \<Rightarrow> 'd PostStorage \<Rightarrow> 'd PostModel \<times> 'd PostStorage" where
  "create_post new_id a d c st =
     (let post = \<lparr>author = a, date = d, content = c, id' = new_id\<rparr>
      in (post, st\<lparr>posts := AList.update new_id post (posts st)\<rparr>))"

definition update_post ::
  "string \<Rightarrow> string \<Rightarrow> 'd \<Rightarrow> string \<Rightarrow> 'd PostStorage \<Rightarrow> 'd PostModel option \<times> 'd PostStorage" where
  "update_post post_id a d c st =
     (if post_id \<notin> fst ` set (posts st) then (None, st)
      else (let post = \<lparr>author = a, date = d, content = c, id' = post_id\<rparr>
            in (Some post, st\<lparr>posts := AList.update post_id post (posts st)\<rparr>)))"

text \<open>
  \<^verbatim>\<open>self._posts.pop(post_id, None) is not None\<close>: the popped value is the stored post or
  the default \<^verbatim>\<open>None\<close>, and the key is gone afterwards. A dict holds a key once, so
  removing every entry of the key (\<^const>\<open>AList.delete\<close>) removes that one entry.
\<close>

definition delete_post :: "string \<Rightarrow> 'd PostStorage \<Rightarrow> bool \<times> 'd PostStorage" where
  "delete_post post_id st =
     (map_of (posts st) post_id \<noteq> None, st\<lparr>posts := AList.delete post_id (posts st)\<rparr>)"

section \<open>The request handlers (main.py)\<close>

text \<open>
  \<^verbatim>\<open>HTTPException(status_code=404)\<close> is \<open>NotFound\<close>. \<open>InvalidInput\<close> is the rejection of
  a request whose body is not a \<^verbatim>\<open>PostInput\<close>. A \<^verbatim>\<open>PostModel\<close> object is always truthy,
  so \<^verbatim>\<open>if not post\<close> tests for \<^verbatim>\<open>None\<close>.
\<close>

datatype error = NotFound | InvalidInput

definition list_posts_handler :: "'d PostStorage \<Rightarrow> 'd PostModel list" where
  "list_posts_handler st = list_posts st"

definition create_post_handler ::
  "string \<Rightarrow> 'd PostInput \<Rightarrow> 'd PostStorage \<Rightarrow> 'd PostModel \<times> 'd PostStorage" where
  "create_post_handler new_id post st =
     create_post new_id (author post) (date post) (content post) st"

definition get_post_handler :: "string \<Rightarrow> 'd PostStorage \<Rightarrow> error + 'd PostModel" where
  "get_post_handler post_id st =
     (case get_post post_id st of None \<Rightarrow> Inl NotFound | Some post \<Rightarrow> Inr post)"

definition update_post_handler ::
  "string \<Rightarrow> 'd PostInput \<Rightarrow> 'd PostStorage \<Rightarrow> (error + 'd PostModel) \<times> 'd PostStorage" where
  "update_post_handler post_id post st =
     (let (updated, st') = update_post post_id (author post) (date post) (content post) st
      in case updated of None \<Rightarrow> (Inl NotFound, st') | Some p \<Rightarrow> (Inr p, st'))"

definition delete_post_handler ::
  "string \<Rightarrow> 'd PostStorage \<Rightarrow> (error + unit) \<times> 'd PostStorage" where
  "delete_post_handler post_id st =
     (let (ok, st') = delete_post post_id st
      in if \<not> ok then (Inl NotFound, st') else (Inr (), st'))"

section \<open>Requests\<close>

text \<open>
  The body of a request is a JSON object. The handlers of \<^verbatim>\<open>POST /posts\<close> and
  \<^verbatim>\<open>PUT /posts/{post_id}\<close> declare the parameter \<^verbatim>\<open>post: PostInput\<close>: they run on a
  \<^verbatim>\<open>PostInput\<close> object only, which the framework builds from the body before the call.
  All three fields of the schema are required (none has a default). How a single JSON
  value is read as a \<^verbatim>\<open>str\<close> or as a \<^verbatim>\<open>datetime\<close> belongs to the validation library, not
  to this repository: the two readers are the parameters \<open>parse_str\<close> and
  \<open>parse_datetime\<close>.
\<close>

datatype json = JNull | JBool bool | JNum int | JStr string
  | JArr "json list" | JObj "(string \<times> json) list"

type_synonym body = "string \<rightharpoonup> json"

definition PostInput_validate ::
  "(json \<Rightarrow> string option) \<Rightarrow> (json \<Rightarrow> 'd option) \<Rightarrow> body \<Rightarrow> 'd PostInput option" where
  "PostInput_validate parse_str parse_datetime b =
     (case Option.bind (b ''author'') parse_str of None \<Rightarrow> None | Some a \<Rightarrow>
      (case Option.bind (b ''date'') parse_datetime of None \<Rightarrow> None | Some d \<Rightarrow>
       (case Option.bind (b ''content'') parse_str of None \<Rightarrow> None | Some c \<Rightarrow>
          Some \<lparr>author = a, date = d, content = c\<rparr>)))"

text \<open>
  One request to the application. A \<open>CreateReq\<close> carries, next to its body, the string
  that \<^verbatim>\<open>str(uuid4())\<close> returns if the store is reached.
\<close>

datatype request =
    ListReq
  | CreateReq string body
  | ReadReq string
  | UpdateReq string body
  | DeleteReq string

datatype 'd reply = PostList "'d PostModel list" | PostOne "'d PostModel" | NoContent

fun step ::
  "(body \<Rightarrow> 'd PostInput option) \<Rightarrow> request \<Rightarrow> 'd PostStorage
     \<Rightarrow> (error + 'd reply) \<times> 'd PostStorage" where
  "step validate ListReq st = (Inr (PostList (list_posts_handler st)), st)"
| "step validate (CreateReq new_id b) st =
     (case validate b of
        None \<Rightarrow> (Inl InvalidInput, st)
      | Some post \<Rightarrow>
          (let (p, st') = create_post_handler new_id post st in (Inr (PostOne p), st')))"
| "step validate (ReadReq post_id) st =
     (case get_post_handler post_id st of
        Inl e \<Rightarrow> (Inl e, st)
      | Inr p \<Rightarrow> (Inr (PostOne p), st))"
| "step validate (UpdateReq post_id b) st =
     (case validate b of
        None \<Rightarrow> (Inl InvalidInput, st)
      | Some post \<Rightarrow>
          (let (r, st') = update_post_handler post_id post st
           in case r of Inl e \<Rightarrow> (Inl e, st') | Inr p \<Rightarrow> (Inr (PostOne p), st')))"
| "step validate (DeleteReq post_id) st =
     (let (r, st') = delete_post_handler post_id st
      in case r of Inl e \<Rightarrow> (Inl e, st') | Inr u \<Rightarrow> (Inr NoContent, st'))"

text \<open>A finite sequence of requests, with the log of what each one returned.\<close>

fun run ::
  "(body \<Rightarrow> 'd PostInput option) \<Rightarrow> request list \<Rightarrow> 'd PostStorage
     \<Rightarrow> (request \<times> (error + 'd reply)) list \<times> 'd PostStorage" where
  "run validate [] st = ([], st)"
| "run validate (r # rs) st =
     (let (out, st') = step validate r st;
          (log, st'') = run validate rs st'
      in ((r, out) # log, st''))"

text \<open>The values \<^verbatim>\<open>uuid4\<close> returned during a run: one for each create that reached the store.\<close>

fun uuid4_calls :: "(body \<Rightarrow> 'd PostInput option) \<Rightarrow> request list \<Rightarrow> string list" where
  "uuid4_calls validate [] = []"
| "uuid4_calls validate (CreateReq new_id b # rs) =
     (if validate b = None then uuid4_calls validate rs
      else new_id # uuid4_calls validate rs)"
| "uuid4_calls validate (r # rs) = uuid4_calls validate rs"

text \<open>The identifiers of the posts that successful creates returned, in order.\<close>

fun created :: "(request \<times> (error + 'd reply)) list \<Rightarrow> string list" where
  "created [] = []"
| "created ((CreateReq new_id b, Inr (PostOne p)) # log) = id' p # created log"
| "created (x # log) = created log"

text \<open>The identifiers that successful deletes removed, in order.\<close>

fun deleted :: "(request \<times> (error + 'd reply)) list \<Rightarrow> string list" where
  "deleted [] = []"
| "deleted ((DeleteReq post_id, Inr NoContent) # log) = post_id # deleted log"
| "deleted (x # log) = deleted log"

text \<open>The key a request names: the only key of the store it can write.\<close>

fun key_of :: "request \<Rightarrow> string option" where
  "key_of ListReq = None"
| "key_of (CreateReq new_id b) = Some new_id"
| "key_of (ReadReq post_id) = None"
| "key_of (UpdateReq post_id b) = Some post_id"
| "key_of (DeleteReq post_id) = Some post_id"

text \<open>
  What holds of the dict in every state the program reaches: no key occurs twice, and
  each post is stored under its own identifier.
\<close>

definition wf_storage :: "'d PostStorage \<Rightarrow> bool" where
  "wf_storage st \<longleftrightarrow>
     distinct (map fst (posts st)) \<and> (\<forall>(k, p) \<in> set (posts st). id' p = k)"

text \<open>
  The inputs that reached the store during a run: one for each create and each update
  whose body was a \<^verbatim>\<open>PostInput\<close>.
\<close>

fun accepted :: "(body \<Rightarrow> 'd PostInput option) \<Rightarrow> request list \<Rightarrow> 'd PostInput list" where
  "accepted validate [] = []"
| "accepted validate (CreateReq new_id b # rs) =
     (case validate b of None \<Rightarrow> accepted validate rs | Some post \<Rightarrow> post # accepted validate rs)"
| "accepted validate (UpdateReq post_id b # rs) =
     (case validate b of None \<Rightarrow> accepted validate rs | Some post \<Rightarrow> post # accepted validate rs)"
| "accepted validate (r # rs) = accepted validate rs"

section \<open>Sample requests\<close>

text \<open>
  A reader that takes a JSON string as it is and nothing else, and two bodies: they
  instantiate the parameters in the examples that follow the theorems. With this reader
  a date is the text of its JSON string.
\<close>

abbreviation (input) json_str :: "json \<Rightarrow> string option" where
  "json_str j \<equiv> (case j of JStr s \<Rightarrow> Some s | _ \<Rightarrow> None)"

abbreviation (input) sample_validate :: "body \<Rightarrow> string PostInput option" where
  "sample_validate \<equiv> PostInput_validate json_str json_str"

abbreviation (input) alice_body :: body where
  "alice_body \<equiv> [''author'' \<mapsto> JStr ''Alice'', ''date'' \<mapsto> JStr ''2024-01-01T00:00:00Z'',
     ''content'' \<mapsto> JStr ''hello'']"

abbreviation (input) bob_body :: body where
  "bob_body \<equiv> [''author'' \<mapsto> JStr ''Bob'', ''date'' \<mapsto> JStr ''2024-02-02T00:00:00Z'',
     ''content'' \<mapsto> JStr ''bye'']"

section \<open>Basic facts about the store\<close>

lemma get_post_None_iff: "get_post k st = None \<longleftrightarrow> k \<notin> fst ` set (posts st)"
  by (simp add: get_post_def map_of_eq_None_iff)

lemma get_post_create:
  "get_post k (snd (create_post new_id a d c st)) =
     (if k = new_id then Some (fst (create_post new_id a d c st)) else get_post k st)"
  by (simp add: create_post_def get_post_def Let_def update_conv')

section \<open>The store after one request and after a run\<close>

lemmas handler_defs = list_posts_handler_def create_post_handler_def get_post_handler_def
  update_post_handler_def delete_post_handler_def

lemma posts_create_post:
  "posts (snd (create_post new_id a d c st)) =
     AList.update new_id \<lparr>author = a, date = d, content = c, id' = new_id\<rparr> (posts st)"
  by (simp add: create_post_def Let_def)

lemma posts_update_post:
  "posts (snd (update_post k a d c st)) =
     (if k \<in> fst ` set (posts st)
      then AList.update k \<lparr>author = a, date = d, content = c, id' = k\<rparr> (posts st)
      else posts st)"
  by (simp add: update_post_def Let_def)

lemma posts_delete_post: "posts (snd (delete_post k st)) = AList.delete k (posts st)"
  by (simp add: delete_post_def)

lemma posts_step:
  "posts (snd (step validate r st)) =
     (case r of
        CreateReq u b \<Rightarrow>
          (case validate b of None \<Rightarrow> posts st
           | Some inp \<Rightarrow> AList.update u
               \<lparr>author = author inp, date = date inp, content = content inp, id' = u\<rparr> (posts st))
      | UpdateReq k b \<Rightarrow>
          (case validate b of None \<Rightarrow> posts st
           | Some inp \<Rightarrow>
               if k \<in> fst ` set (posts st)
               then AList.update k
                 \<lparr>author = author inp, date = date inp, content = content inp, id' = k\<rparr> (posts st)
               else posts st)
      | DeleteReq k \<Rightarrow> AList.delete k (posts st)
      | _ \<Rightarrow> posts st)"
  by (cases r)
    (auto simp: handler_defs create_post_def update_post_def delete_post_def Let_def
          split: option.splits sum.splits prod.splits)

lemma set_alist_update:
  "x \<in> set (AList.update k v al) \<Longrightarrow> x = (k, v) \<or> x \<in> set al"
  by (induction al) (auto split: if_splits)

lemma set_alist_delete: "x \<in> set (AList.delete k al) \<Longrightarrow> x \<in> set al"
  by (simp add: AList.delete_eq)

lemma wf_storage_init: "wf_storage storage"
  by (simp add: wf_storage_def storage_def)

lemma wf_storage_step: "wf_storage st \<Longrightarrow> wf_storage (snd (step validate r st))"
  unfolding wf_storage_def posts_step
  by (cases r)
    (auto simp: distinct_update distinct_delete split: option.splits
          dest: set_alist_update set_alist_delete)

lemma snd_run_Cons:
  "snd (run validate (r # rs) st) = snd (run validate rs (snd (step validate r st)))"
  by (simp add: split_beta)

lemma fst_run_Cons:
  "fst (run validate (r # rs) st) =
     (r, fst (step validate r st)) # fst (run validate rs (snd (step validate r st)))"
  by (simp add: split_beta)

lemma wf_storage_run: "wf_storage st \<Longrightarrow> wf_storage (snd (run validate rs st))"
proof (induction rs arbitrary: st)
  case Nil
  then show ?case by simp
next
  case (Cons r rs)
  then show ?case by (simp only: snd_run_Cons wf_storage_step)
qed

declare run.simps(2) [simp del]

lemma fst_step_CreateReq:
  "fst (step validate (CreateReq u b) st) =
     (case validate b of None \<Rightarrow> Inl InvalidInput
      | Some inp \<Rightarrow> Inr (PostOne
          \<lparr>author = author inp, date = date inp, content = content inp, id' = u\<rparr>))"
  by (simp add: handler_defs create_post_def Let_def split: option.splits)

lemma fst_step_DeleteReq:
  "fst (step validate (DeleteReq k) st) =
     (if k \<in> fst ` set (posts st) then Inr NoContent else Inl NotFound)"
  by (auto simp: handler_defs delete_post_def map_of_eq_None_iff)

lemma snd_step_other [simp]:
  "snd (step validate ListReq st) = st" "snd (step validate (ReadReq k) st) = st"
  by (simp_all add: handler_defs split: option.splits)

declare step.simps [simp del]

lemma created_run: "created (fst (run validate rs st)) = uuid4_calls validate rs"
proof (induction rs arbitrary: st)
  case Nil
  then show ?case by simp
next
  case (Cons r rs)
  show ?case
  proof (cases r)
    case (CreateReq u b)
    then show ?thesis
      using Cons.IH by (cases "validate b") (simp_all add: fst_run_Cons fst_step_CreateReq)
  next
    case ListReq
    then show ?thesis using Cons.IH by (simp add: fst_run_Cons)
  next
    case (ReadReq k)
    then show ?thesis using Cons.IH by (simp add: fst_run_Cons)
  next
    case (UpdateReq k b)
    then show ?thesis using Cons.IH by (simp add: fst_run_Cons)
  next
    case (DeleteReq k)
    then show ?thesis using Cons.IH by (simp add: fst_run_Cons)
  qed
qed

lemma keys_step:
  "fst ` set (posts (snd (step validate r st))) =
     (case r of
        CreateReq u b \<Rightarrow>
          (if validate b = None then fst ` set (posts st) else insert u (fst ` set (posts st)))
      | DeleteReq k \<Rightarrow> fst ` set (posts st) - {k}
      | _ \<Rightarrow> fst ` set (posts st))"
proof (cases r)
  case (DeleteReq k)
  have "fst ` set (AList.delete k (posts st)) = fst ` set (posts st) - {k}"
    by (auto simp: AList.delete_eq)
  then show ?thesis using DeleteReq by (simp add: posts_step)
qed (auto simp: posts_step dom_update split: option.splits)

lemma deleted_Cons_DeleteReq:
  "deleted ((DeleteReq k, out) # log) =
     (if out = Inr NoContent then k # deleted log else deleted log)"
  by (cases "((DeleteReq k, out) # log)" rule: deleted.cases) auto

lemma deleted_Cons_other:
  "(\<And>k. r \<noteq> DeleteReq k) \<Longrightarrow> deleted ((r, out) # log) = deleted log"
  by (cases "((r, out) # log)" rule: deleted.cases) auto

lemma keys_run:
  assumes "distinct (uuid4_calls validate rs)"
    and "set (uuid4_calls validate rs) \<inter> fst ` set (posts st) = {}"
  shows "fst ` set (posts (snd (run validate rs st))) =
           (fst ` set (posts st) \<union> set (uuid4_calls validate rs))
             - set (deleted (fst (run validate rs st)))"
  using assms
proof (induction rs arbitrary: st)
  case Nil
  then show ?case by simp
next
  case (Cons r rs)
  let ?st = "snd (step validate r st)"
  show ?case
  proof (cases r)
    case ListReq
    with Cons.prems have "distinct (uuid4_calls validate rs)"
      "set (uuid4_calls validate rs) \<inter> fst ` set (posts ?st) = {}"
      by (simp_all add: keys_step)
    from Cons.IH [OF this] ListReq show ?thesis
      by (simp add: snd_run_Cons fst_run_Cons keys_step deleted_Cons_other)
  next
    case (ReadReq k)
    with Cons.prems have "distinct (uuid4_calls validate rs)"
      "set (uuid4_calls validate rs) \<inter> fst ` set (posts ?st) = {}"
      by (simp_all add: keys_step)
    from Cons.IH [OF this] ReadReq show ?thesis
      by (simp add: snd_run_Cons fst_run_Cons keys_step deleted_Cons_other)
  next
    case (UpdateReq k b)
    with Cons.prems have "distinct (uuid4_calls validate rs)"
      "set (uuid4_calls validate rs) \<inter> fst ` set (posts ?st) = {}"
      by (simp_all add: keys_step)
    from Cons.IH [OF this] UpdateReq show ?thesis
      by (simp add: snd_run_Cons fst_run_Cons keys_step deleted_Cons_other)
  next
    case (CreateReq u b)
    show ?thesis
    proof (cases "validate b")
      case None
      with CreateReq Cons.prems have "distinct (uuid4_calls validate rs)"
        "set (uuid4_calls validate rs) \<inter> fst ` set (posts ?st) = {}"
        by (simp_all add: keys_step)
      from Cons.IH [OF this] CreateReq None show ?thesis
        by (simp add: snd_run_Cons fst_run_Cons keys_step deleted_Cons_other)
    next
      case (Some inp)
      with CreateReq Cons.prems have "distinct (uuid4_calls validate rs)"
        "set (uuid4_calls validate rs) \<inter> fst ` set (posts ?st) = {}"
        by (auto simp: keys_step)
      from Cons.IH [OF this] CreateReq Some show ?thesis
        by (simp add: snd_run_Cons fst_run_Cons keys_step deleted_Cons_other)
    qed
  next
    case (DeleteReq k)
    with Cons.prems have d: "distinct (uuid4_calls validate rs)"
      and i: "set (uuid4_calls validate rs) \<inter> fst ` set (posts st) = {}"
      by simp_all
    from i have "set (uuid4_calls validate rs) \<inter> fst ` set (posts ?st) = {}"
      using DeleteReq by (auto simp: keys_step)
    from Cons.IH [OF d this] have IH:
      "fst ` set (posts (snd (run validate rs ?st))) =
         ((fst ` set (posts st) - {k}) \<union> set (uuid4_calls validate rs))
           - set (deleted (fst (run validate rs ?st)))"
      using DeleteReq by (simp add: keys_step)
    show ?thesis
    proof (cases "k \<in> fst ` set (posts st)")
      case True
      with i have "k \<notin> set (uuid4_calls validate rs)" by auto
      with True IH DeleteReq show ?thesis
        by (auto simp: snd_run_Cons fst_run_Cons deleted_Cons_DeleteReq fst_step_DeleteReq)
    next
      case False
      with IH DeleteReq show ?thesis
        by (auto simp: snd_run_Cons fst_run_Cons deleted_Cons_DeleteReq fst_step_DeleteReq)
    qed
  qed
qed

lemma ids_are_keys: "wf_storage st \<Longrightarrow> map id' (list_posts st) = map fst (posts st)"
  by (auto simp: wf_storage_def list_posts_def)

lemmas store_defs = storage_def list_posts_def get_post_def create_post_def update_post_def
  delete_post_def

lemmas eval_defs = run.simps step.simps handler_defs store_defs PostInput_validate_def Let_def

text \<open>
  Claim C1. Round trip. For every input \<open>inp\<close> (a validated author, date and content), every
  generated identifier and every store: the post that the create handler returns is found
  again by the read handler under the identifier of that post, and it carries the
  generated identifier and the three fields of the input.
\<close>

theorem create_read_round_trip:
  "let (p, st') = create_post_handler new_id inp st in
     get_post_handler (id' p) st' = Inr p \<and> id' p = new_id \<and>
     author p = author inp \<and> date p = date inp \<and> content p = content inp"
  by (simp add: handler_defs store_defs Let_def update_conv')

text \<open>
  Claim C2. Update preserves identity and replaces the fields as a unit. If \<open>post_id\<close> is
  present in the store (whatever record \<open>old\<close> it holds), \<^verbatim>\<open>update_post\<close> returns the post
  with that identifier and exactly the author, date and content passed in; the handler
  returns the same post, and a read that follows returns it too. Nothing of \<open>old\<close>
  appears in the result.
\<close>

theorem update_preserves_identity:
  assumes "get_post post_id st = Some old"
  shows "fst (update_post post_id a2 d2 c2 st) =
           Some \<lparr>author = a2, date = d2, content = c2, id' = post_id\<rparr> \<and>
         fst (update_post_handler post_id inp st) =
           Inr \<lparr>author = author inp, date = date inp, content = content inp, id' = post_id\<rparr> \<and>
         get_post_handler post_id (snd (update_post_handler post_id inp st)) =
           Inr \<lparr>author = author inp, date = date inp, content = content inp, id' = post_id\<rparr>"
proof -
  from assms have "post_id \<in> fst ` set (posts st)"
    using get_post_None_iff [of post_id st] by simp
  then show ?thesis
    by (simp add: handler_defs store_defs Let_def update_conv')
qed

text \<open>Claim C2 at a concrete run.\<close>

theorem update_preserves_identity_witness:
  "get_post ''u1'' (snd (create_post_handler ''u1''
       \<lparr>author = ''Alice'', date = ''2024-01-01T00:00:00Z'', content = ''hello''\<rparr> storage)) =
     Some \<lparr>author = ''Alice'', date = ''2024-01-01T00:00:00Z'', content = ''hello'', id' = ''u1''\<rparr> \<and>
   fst (update_post_handler ''u1''
       \<lparr>author = ''Bob'', date = ''2024-02-02T00:00:00Z'', content = ''bye''\<rparr>
       (snd (create_post_handler ''u1''
         \<lparr>author = ''Alice'', date = ''2024-01-01T00:00:00Z'', content = ''hello''\<rparr> storage))) =
     Inr \<lparr>author = ''Bob'', date = ''2024-02-02T00:00:00Z'', content = ''bye'', id' = ''u1''\<rparr>"
proof -
  have h: "get_post ''u1'' (snd (create_post_handler ''u1''
       \<lparr>author = ''Alice'', date = ''2024-01-01T00:00:00Z'', content = ''hello''\<rparr> storage)) =
     Some \<lparr>author = ''Alice'', date = ''2024-01-01T00:00:00Z'', content = ''hello'', id' = ''u1''\<rparr>"
    by (simp add: handler_defs store_defs Let_def)
  from update_preserves_identity [OF h, of "''Bob''" "''2024-02-02T00:00:00Z''" "''bye''"
      "\<lparr>author = ''Bob'', date = ''2024-02-02T00:00:00Z'', content = ''bye''\<rparr>"] h
  show ?thesis by simp
qed

lemma get_post_step_absent:
  assumes "get_post k st = None" and "k \<notin> set (uuid4_calls validate [r])"
  shows "get_post k (snd (step validate r st)) = None"
  using assms by (cases r) (auto simp: get_post_None_iff keys_step split: if_splits)

lemma uuid4_calls_Cons:
  "set (uuid4_calls validate (r # rs)) =
     set (uuid4_calls validate [r]) \<union> set (uuid4_calls validate rs)"
  by (cases r) auto

lemma get_post_run_absent:
  "get_post k st = None \<Longrightarrow> k \<notin> set (uuid4_calls validate rs)
     \<Longrightarrow> get_post k (snd (run validate rs st)) = None"
proof (induction rs arbitrary: st)
  case Nil
  then show ?case by simp
next
  case (Cons r rs)
  from Cons.prems(2) have a: "k \<notin> set (uuid4_calls validate [r])"
    and b: "k \<notin> set (uuid4_calls validate rs)"
    using uuid4_calls_Cons [of validate r rs] by auto
  from get_post_step_absent [OF Cons.prems(1) a] Cons.IH b show ?case
    by (simp add: snd_run_Cons)
qed

lemma get_post_after_delete: "get_post k (snd (delete_post_handler k st)) = None"
  by (simp add: handler_defs store_defs delete_conv' split: if_splits)

lemma absent_NotFound:
  assumes "get_post k st = None"
  shows "get_post_handler k st = Inl NotFound"
    and "update_post_handler k inp st = (Inl NotFound, st)"
    and "delete_post_handler k st = (Inl NotFound, st)"
proof -
  from assms have n: "k \<notin> fst ` set (posts st)" by (simp add: get_post_None_iff)
  show "get_post_handler k st = Inl NotFound" using assms by (simp add: get_post_handler_def)
  show "update_post_handler k inp st = (Inl NotFound, st)"
    using n by (simp add: update_post_handler_def update_post_def)
  have "map_of (posts st) k = None" using assms by (simp add: get_post_def)
  then show "delete_post_handler k st = (Inl NotFound, st)"
    using n by (simp add: delete_post_handler_def delete_post_def)
qed

text \<open>
  Claim C3. Delete is terminal. After the delete handler succeeded on \<open>k\<close>, and after any
  further requests \<open>mid\<close> during which \<^verbatim>\<open>uuid4\<close> does not return \<open>k\<close> again, a read of
  \<open>k\<close> signals \<open>NotFound\<close>, an update of \<open>k\<close> with any input signals \<open>NotFound\<close> and
  leaves the store as it is, and a second delete of \<open>k\<close> signals \<open>NotFound\<close>. With
  \<open>mid = []\<close> these are the requests that follow the delete directly.
\<close>

theorem delete_is_terminal:
  assumes "fst (delete_post_handler k st) = Inr ()"
    and "k \<notin> set (uuid4_calls validate mid)"
  shows "let st2 = snd (run validate mid (snd (delete_post_handler k st))) in
           get_post_handler k st2 = Inl NotFound \<and>
           update_post_handler k inp st2 = (Inl NotFound, st2) \<and>
           delete_post_handler k st2 = (Inl NotFound, st2)"
proof -
  have "get_post k (snd (run validate mid (snd (delete_post_handler k st)))) = None"
    using get_post_after_delete assms(2) by (rule get_post_run_absent)
  then show ?thesis
    by (simp add: Let_def absent_NotFound)
qed

text \<open>Claim C3 at a concrete run.\<close>

theorem delete_is_terminal_witness:
  "fst (delete_post_handler ''u1'' (snd (create_post_handler ''u1''
      \<lparr>author = ''Alice'', date = ''2024-01-01T00:00:00Z'', content = ''hello''\<rparr> storage))) = Inr () \<and>
   ''u1'' \<notin> set (uuid4_calls sample_validate [CreateReq ''u2'' bob_body, ReadReq ''u1'']) \<and>
   get_post_handler ''u1''
     (snd (run sample_validate [CreateReq ''u2'' bob_body, ReadReq ''u1'']
       (snd (delete_post_handler ''u1'' (snd (create_post_handler ''u1''
         \<lparr>author = ''Alice'', date = ''2024-01-01T00:00:00Z'', content = ''hello''\<rparr> storage))))))
     = Inl NotFound \<and>
   fst (update_post_handler ''u1''
     \<lparr>author = ''Bob'', date = ''2024-02-02T00:00:00Z'', content = ''bye''\<rparr>
     (snd (run sample_validate [CreateReq ''u2'' bob_body, ReadReq ''u1'']
       (snd (delete_post_handler ''u1'' (snd (create_post_handler ''u1''
         \<lparr>author = ''Alice'', date = ''2024-01-01T00:00:00Z'', content = ''hello''\<rparr> storage)))))))
     = Inl NotFound \<and>
   fst (delete_post_handler ''u1''
     (snd (run sample_validate [CreateReq ''u2'' bob_body, ReadReq ''u1'']
       (snd (delete_post_handler ''u1'' (snd (create_post_handler ''u1''
         \<lparr>author = ''Alice'', date = ''2024-01-01T00:00:00Z'', content = ''hello''\<rparr> storage)))))))
     = Inl NotFound"
proof -
  have h1: "fst (delete_post_handler ''u1'' (snd (create_post_handler ''u1''
      \<lparr>author = ''Alice'', date = ''2024-01-01T00:00:00Z'', content = ''hello''\<rparr> storage))) = Inr ()"
    by (simp add: handler_defs store_defs Let_def)
  have h2: "''u1'' \<notin> set (uuid4_calls sample_validate [CreateReq ''u2'' bob_body, ReadReq ''u1''])"
    by (simp add: PostInput_validate_def)
  from delete_is_terminal [OF h1 h2,
      of "\<lparr>author = ''Bob'', date = ''2024-02-02T00:00:00Z'', content = ''bye''\<rparr>"] h1 h2
  show ?thesis by (simp only: Let_def fst_conv simp_thms)
qed

text \<open>
  Claim C6. No upsert. If \<open>post_id\<close> is not present in the store, \<^verbatim>\<open>update_post\<close> returns
  \<^verbatim>\<open>None\<close> and the handler signals \<open>NotFound\<close>; in both cases the store that comes back is
  the store that went in, so no record was created.
\<close>

theorem update_no_upsert:
  assumes "get_post post_id st = None"
  shows "update_post post_id a d c st = (None, st) \<and>
         update_post_handler post_id inp st = (Inl NotFound, st)"
proof -
  from assms have "post_id \<notin> fst ` set (posts st)" by (simp add: get_post_None_iff)
  then show ?thesis by (simp add: update_post_handler_def update_post_def)
qed

text \<open>Claim C6 at a concrete run.\<close>

theorem update_no_upsert_witness:
  "get_post ''u9'' (storage :: string PostStorage) = None \<and>
   update_post ''u9'' ''Bob'' ''2024-02-02T00:00:00Z'' ''bye'' storage = (None, storage) \<and>
   update_post_handler ''u9''
     \<lparr>author = ''Bob'', date = ''2024-02-02T00:00:00Z'', content = ''bye''\<rparr> storage
     = (Inl NotFound, storage)"
proof -
  have h: "get_post ''u9'' (storage :: string PostStorage) = None"
    by (simp add: store_defs)
  from update_no_upsert [OF h] h show ?thesis by blast
qed

text \<open>
  Claim C7. Validation comes before the existence check. If the body of an update lacks
  one of the three fields, or the value of a field is not read as its type (a text for
  author and content, a timestamp for date), the request signals \<open>InvalidInput\<close> and the
  store is unchanged: for every store and every identifier, present or not.
\<close>

theorem update_validates_first:
  assumes "Option.bind (b ''author'') parse_str = None \<or>
           Option.bind (b ''date'') parse_datetime = None \<or>
           Option.bind (b ''content'') parse_str = None"
  shows "step (PostInput_validate parse_str parse_datetime) (UpdateReq post_id b) st =
           (Inl InvalidInput, st)"
proof -
  from assms have "PostInput_validate parse_str parse_datetime b = None"
    by (auto simp: PostInput_validate_def split: option.splits)
  then show ?thesis by (simp add: step.simps)
qed

text \<open>Claim C7 at a concrete run.\<close>

theorem update_validates_first_witness:
  "Option.bind ([''author'' \<mapsto> JStr ''Bob'', ''content'' \<mapsto> JStr ''bye''] ''date'') json_str = None \<and>
   step sample_validate
     (UpdateReq ''u9'' [''author'' \<mapsto> JStr ''Bob'', ''content'' \<mapsto> JStr ''bye'']) storage
     = (Inl InvalidInput, storage)"
proof -
  have h: "Option.bind ([''author'' \<mapsto> JStr ''Bob'', ''content'' \<mapsto> JStr ''bye''] ''date'') json_str = None"
    by simp
  then have "Option.bind ([''author'' \<mapsto> JStr ''Bob'', ''content'' \<mapsto> JStr ''bye''] ''author'') json_str = None \<or>
    Option.bind ([''author'' \<mapsto> JStr ''Bob'', ''content'' \<mapsto> JStr ''bye''] ''date'') json_str = None \<or>
    Option.bind ([''author'' \<mapsto> JStr ''Bob'', ''content'' \<mapsto> JStr ''bye''] ''content'') json_str = None"
    by (intro disjI2 disjI1)
  from update_validates_first [OF this] h show ?thesis by blast
qed

lemma get_post_step_frame:
  assumes "key_of r \<noteq> Some k"
  shows "get_post k (snd (step validate r st)) = get_post k st"
proof (cases r)
  case (CreateReq u b)
  with assms show ?thesis
    by (cases "validate b") (auto simp: get_post_def posts_step update_conv')
next
  case (UpdateReq j b)
  with assms show ?thesis
    by (cases "validate b") (auto simp: get_post_def posts_step update_conv')
next
  case (DeleteReq j)
  with assms show ?thesis
    by (auto simp: get_post_def posts_step delete_conv')
qed simp_all

text \<open>
  Claim C8. Frame. A request writes at most the one key it names (\<open>key_of\<close>): the record
  read under any other identifier \<open>k\<close> is the same before and after the request. And in
  every state reached from the empty store no key occurs twice in the dict.
\<close>

theorem mutation_frame:
  "(key_of r \<noteq> Some k \<longrightarrow> get_post k (snd (step validate r st)) = get_post k st) \<and>
   distinct (map fst (posts (snd (run validate rs storage))))"
proof -
  have "wf_storage (snd (run validate rs (storage :: 'a PostStorage)))"
    using wf_storage_init by (rule wf_storage_run)
  then show ?thesis
    by (simp add: get_post_step_frame wf_storage_def)
qed

text \<open>Claim C8 at a concrete run.\<close>

theorem mutation_frame_witness:
  "key_of (UpdateReq ''u1'' bob_body) \<noteq> Some ''u2'' \<and>
   get_post ''u2'' (snd (step sample_validate (UpdateReq ''u1'' bob_body)
      (snd (run sample_validate [CreateReq ''u1'' alice_body, CreateReq ''u2'' alice_body] storage))))
    = get_post ''u2''
      (snd (run sample_validate [CreateReq ''u1'' alice_body, CreateReq ''u2'' alice_body] storage)) \<and>
   distinct (map fst (posts (snd (run sample_validate
      [CreateReq ''u1'' alice_body, CreateReq ''u2'' alice_body] storage))))"
proof -
  have h: "key_of (UpdateReq ''u1'' bob_body) \<noteq> Some ''u2''" by simp
  from mutation_frame [of "UpdateReq ''u1'' bob_body" "''u2''" sample_validate
      "snd (run sample_validate [CreateReq ''u1'' alice_body, CreateReq ''u2'' alice_body] storage)"
      "[CreateReq ''u1'' alice_body, CreateReq ''u2'' alice_body]"] h
  show ?thesis by blast
qed

text \<open>
  Claim C10. List and get agree. In every state reached from the empty store, the list
  that \<^verbatim>\<open>list_posts\<close> returns is as long as there are stored identifiers, the identifiers
  of its posts are pairwise different, and for each post \<open>p\<close> of the list
  \<^verbatim>\<open>get_post\<close> on the identifier of \<open>p\<close> returns \<open>p\<close>.
\<close>

theorem list_get_consistent:
  "let st = snd (run validate reqs storage) in
     length (list_posts st) = card {k. get_post k st \<noteq> None} \<and>
     distinct (map id' (list_posts st)) \<and>
     (\<forall>p \<in> set (list_posts st). get_post (id' p) st = Some p)"
proof -
  let ?st = "snd (run validate reqs (storage :: 'a PostStorage))"
  have wf: "wf_storage ?st" using wf_storage_init by (rule wf_storage_run)
  then have d: "distinct (map fst (posts ?st))" by (simp add: wf_storage_def)
  have "{k. get_post k ?st \<noteq> None} = set (map fst (posts ?st))"
    by (auto simp: get_post_None_iff)
  then have "card {k. get_post k ?st \<noteq> None} = length (map fst (posts ?st))"
    using d by (simp only: distinct_card)
  then have 1: "length (list_posts ?st) = card {k. get_post k ?st \<noteq> None}"
    by (simp add: list_posts_def)
  have 2: "distinct (map id' (list_posts ?st))"
    using d ids_are_keys [OF wf] by simp
  have 3: "get_post (id' p) ?st = Some p" if "p \<in> set (list_posts ?st)" for p
  proof -
    from that obtain k where kp: "(k, p) \<in> set (posts ?st)"
      by (auto simp: list_posts_def)
    with wf have "id' p = k" by (auto simp: wf_storage_def)
    with kp d show ?thesis by (simp add: get_post_def)
  qed
  from 1 2 3 show ?thesis by (simp add: Let_def)
qed

text \<open>Claim C10 at a concrete run.\<close>

theorem list_get_consistent_witness:
  "list_posts (snd (run sample_validate
      [CreateReq ''u1'' alice_body, CreateReq ''u2'' bob_body, DeleteReq ''u1''] storage)) =
     [\<lparr>author = ''Bob'', date = ''2024-02-02T00:00:00Z'', content = ''bye'', id' = ''u2''\<rparr>] \<and>
   card {k. get_post k (snd (run sample_validate
      [CreateReq ''u1'' alice_body, CreateReq ''u2'' bob_body, DeleteReq ''u1''] storage)) \<noteq> None} = 1 \<and>
   get_post ''u2'' (snd (run sample_validate
      [CreateReq ''u1'' alice_body, CreateReq ''u2'' bob_body, DeleteReq ''u1''] storage)) =
     Some \<lparr>author = ''Bob'', date = ''2024-02-02T00:00:00Z'', content = ''bye'', id' = ''u2''\<rparr>"
proof -
  let ?st = "snd (run sample_validate
      [CreateReq ''u1'' alice_body, CreateReq ''u2'' bob_body, DeleteReq ''u1''] storage)"
  let ?p = "\<lparr>author = ''Bob'', date = ''2024-02-02T00:00:00Z'', content = ''bye'', id' = ''u2''\<rparr>"
  have e: "list_posts ?st = [?p]"
    by (simp add: eval_defs)
  from list_get_consistent [of sample_validate
      "[CreateReq ''u1'' alice_body, CreateReq ''u2'' bob_body, DeleteReq ''u1'']"]
  have c: "length (list_posts ?st) = card {k. get_post k ?st \<noteq> None} \<and>
     distinct (map id' (list_posts ?st)) \<and>
     (\<forall>p \<in> set (list_posts ?st). get_post (id' p) ?st = Some p)"
    unfolding Let_def .
  from c have "card {k. get_post k ?st \<noteq> None} = length (list_posts ?st)" by simp
  then have 1: "card {k. get_post k ?st \<noteq> None} = 1" by (simp only: e list.size)
  from c have "\<forall>p \<in> set (list_posts ?st). get_post (id' p) ?st = Some p" by blast
  then have "get_post (id' ?p) ?st = Some ?p" by (simp only: e list.set insert_iff ball_simps simp_thms)
  then have 2: "get_post ''u2'' ?st = Some ?p" by simp
  from e 1 2 show ?thesis by blast
qed

text \<open>
  Claim C4. List completeness. For every sequence of requests run from the empty store
  during which \<^verbatim>\<open>uuid4\<close> never returns the same value twice, the set of identifiers of the
  posts that List returns at the end is the set of identifiers returned by the successful
  creates minus the set of identifiers that successful deletes removed. The requests come
  in any order.
\<close>

theorem list_completeness:
  assumes "distinct (uuid4_calls validate reqs)"
  shows "set (map id' (list_posts_handler (snd (run validate reqs storage)))) =
           set (created (fst (run validate reqs storage)))
             - set (deleted (fst (run validate reqs storage)))"
proof -
  let ?st = "snd (run validate reqs (storage :: 'a PostStorage))"
  have wf: "wf_storage ?st" using wf_storage_init by (rule wf_storage_run)
  have "set (uuid4_calls validate reqs) \<inter> fst ` set (posts (storage :: 'a PostStorage)) = {}"
    by (simp add: storage_def)
  from keys_run [OF assms this] have
    "fst ` set (posts ?st) = set (uuid4_calls validate reqs)
        - set (deleted (fst (run validate reqs (storage :: 'a PostStorage))))"
    by (simp add: storage_def)
  then show ?thesis
    using ids_are_keys [OF wf] by (simp add: list_posts_handler_def created_run)
qed

text \<open>Claim C4 at a concrete run.\<close>

theorem list_completeness_witness:
  "distinct (uuid4_calls sample_validate
      [CreateReq ''u1'' alice_body, DeleteReq ''u1'', CreateReq ''u2'' bob_body]) \<and>
   set (map id' (list_posts_handler (snd (run sample_validate
      [CreateReq ''u1'' alice_body, DeleteReq ''u1'', CreateReq ''u2'' bob_body] storage)))) =
     set (created (fst (run sample_validate
      [CreateReq ''u1'' alice_body, DeleteReq ''u1'', CreateReq ''u2'' bob_body] storage)))
     - set (deleted (fst (run sample_validate
      [CreateReq ''u1'' alice_body, DeleteReq ''u1'', CreateReq ''u2'' bob_body] storage)))"
proof -
  have h: "distinct (uuid4_calls sample_validate
      [CreateReq ''u1'' alice_body, DeleteReq ''u1'', CreateReq ''u2'' bob_body])"
    by (simp add: PostInput_validate_def)
  from list_completeness [OF h] h show ?thesis by blast
qed



lemma authors_step:
  "author ` snd ` set (posts (snd (step validate r st))) \<subseteq>
     author ` snd ` set (posts st) \<union> author ` set (accepted validate [r])"
proof (cases r)
  case (CreateReq u b)
  then show ?thesis
    by (cases "validate b") (auto simp: posts_step dest!: set_alist_update)
next
  case (UpdateReq k b)
  then show ?thesis
    by (cases "validate b") (auto simp: posts_step dest!: set_alist_update)
next
  case (DeleteReq k)
  then show ?thesis
    by (auto simp: posts_step dest!: set_alist_delete)
qed simp_all

lemma accepted_Cons:
  "set (accepted validate (r # rs)) = set (accepted validate [r]) \<union> set (accepted validate rs)"
  by (cases r) (auto split: option.splits)

lemma authors_run:
  "author ` snd ` set (posts (snd (run validate rs st))) \<subseteq>
     author ` snd ` set (posts st) \<union> author ` set (accepted validate rs)"
proof (induction rs arbitrary: st)
  case Nil
  then show ?case by simp
next
  case (Cons r rs)
  have "author ` snd ` set (posts (snd (run validate (r # rs) st))) \<subseteq>
          author ` snd ` set (posts (snd (step validate r st))) \<union> author ` set (accepted validate rs)"
    using Cons.IH by (simp only: snd_run_Cons)
  also have "\<dots> \<subseteq> (author ` snd ` set (posts st) \<union> author ` set (accepted validate [r]))
                 \<union> author ` set (accepted validate rs)"
    using authors_step [of validate r st] by blast
  also have "\<dots> = author ` snd ` set (posts st) \<union> author ` set (accepted validate (r # rs))"
    using accepted_Cons [of validate r rs] by (simp only: image_Un Un_assoc)
  finally show ?case .
qed

text \<open>
  Claim C9 as stated fails: a create whose author is the empty string is accepted
  (\<^verbatim>\<open>author: str\<close> has no length constraint), and the store then lists a post whose author
  is empty.
\<close>

theorem author_empty_counterexample:
  "map author (list_posts (snd (create_post_handler ''u1''
      \<lparr>author = '''', date = ''2024-01-01T00:00:00Z'', content = ''hello''\<rparr> storage))) = ['''']"
  by (simp add: handler_defs store_defs Let_def)

text \<open>
  Claim C9 (as amended). The author is a text that may be empty: neither the schema nor
  the store rejects the empty string. What holds in every state reached from the empty
  store: if every create and update that reached the store supplied a non-empty author,
  then every stored post has a non-empty author.
\<close>

theorem author_nonempty_if_supplied:
  assumes "'''' \<notin> author ` set (accepted validate reqs)"
  shows "'''' \<notin> author ` set (list_posts (snd (run validate reqs storage)))"
proof -
  have "author ` set (list_posts (snd (run validate reqs (storage :: 'a PostStorage)))) \<subseteq>
          author ` set (accepted validate reqs)"
    using authors_run [of validate reqs "storage :: 'a PostStorage"]
    by (simp add: list_posts_def storage_def image_image)
  with assms show ?thesis by blast
qed

text \<open>Claim C9 at a concrete run.\<close>

theorem author_nonempty_if_supplied_witness:
  "'''' \<notin> author ` set (accepted sample_validate
      [CreateReq ''u1'' alice_body, UpdateReq ''u1'' bob_body]) \<and>
   '''' \<notin> author ` set (list_posts (snd (run sample_validate
      [CreateReq ''u1'' alice_body, UpdateReq ''u1'' bob_body] storage)))"
proof -
  have h: "'''' \<notin> author ` set (accepted sample_validate
      [CreateReq ''u1'' alice_body, UpdateReq ''u1'' bob_body])"
    by (simp add: PostInput_validate_def)
  from author_nonempty_if_supplied [OF h] h show ?thesis by blast
qed

end
